theory Spec2Isabelle
  imports Complex_Main
begin

section \<open>Outcomes of a call\<close>

text \<open>
  A call of the program either returns a value, raises an exception, or never returns
  (the \<open>while\<close> loops of \<open>shift_positions\<close> run forever on a board without columns or
  rows). An outcome is \<open>None\<close> when the call does not return, \<open>Some (Inl e)\<close> when it
  raises \<open>e\<close>, and \<open>Some (Inr v)\<close> when it returns \<open>v\<close>.
\<close>

datatype error = IndexError | ValueError | FileNotFoundError

type_synonym 'a outcome = "(error + 'a) option"

definition returns :: "'a \<Rightarrow> 'a outcome" where
  "returns v = Some (Inr v)"

definition raises :: "error \<Rightarrow> 'a outcome" where
  "raises e = Some (Inl e)"

definition and_then :: "'a outcome \<Rightarrow> ('a \<Rightarrow> 'b outcome) \<Rightarrow> 'b outcome" where
  "and_then m f =
     (case m of None \<Rightarrow> None | Some (Inl e) \<Rightarrow> Some (Inl e) | Some (Inr v) \<Rightarrow> f v)"

text \<open>A \<open>for\<close> loop over a list of values, threading the loop's variables as a state.\<close>

fun for_loop :: "'a list \<Rightarrow> ('a \<Rightarrow> 's \<Rightarrow> 's outcome) \<Rightarrow> 's \<Rightarrow> 's outcome" where
  "for_loop [] body s = returns s"
| "for_loop (i # is) body s = and_then (body i s) (for_loop is body)"

text \<open>Python's \<open>range(n)\<close> for the length \<open>n\<close> of a sequence.\<close>

definition range_py :: "nat \<Rightarrow> int list" where
  "range_py n = map int [0..<n]"

section \<open>Two-dimensional arrays\<close>

text \<open>
  The board is a two-dimensional numpy array: a list of rows, all of one length. Cells
  are numbers: floats 0.0 and 1.0 in a random board, integers in a board read from a
  file. The program writes only 0 and 1 into cells and compares cells only with 0 and 1,
  so a cell is modelled as an integer, which is exact for boards of zeros and ones.
\<close>

type_synonym array = "int list list"

definition is_ndarray :: "array \<Rightarrow> bool" where
  "is_ndarray a = list_all (\<lambda>r. length r = length (hd a)) a"

definition binary :: "array \<Rightarrow> bool" where
  "binary a = list_all (list_all (\<lambda>c. c = 0 \<or> c = 1)) a"

text \<open>
  Indexing one axis of length \<open>n\<close> with \<open>i\<close>: an index in \<open>[-n, 0)\<close> counts from the
  end, an index outside \<open>[-n, n)\<close> raises \<open>IndexError\<close>.
\<close>

definition axis_index :: "nat \<Rightarrow> int \<Rightarrow> nat outcome" where
  "axis_index n i =
     (if 0 \<le> i \<and> i < int n then returns (nat i)
      else if - int n \<le> i \<and> i < 0 then returns (nat (i + int n))
      else raises IndexError)"

text \<open>\<open>a[0]\<close>, the first row.\<close>

definition first_row :: "array \<Rightarrow> int list outcome" where
  "first_row a = (case a of [] \<Rightarrow> raises IndexError | r # _ \<Rightarrow> returns r)"

text \<open>\<open>a[j, i]\<close>, reading a cell.\<close>

definition np_get :: "array \<Rightarrow> int \<Rightarrow> int \<Rightarrow> int outcome" where
  "np_get a j i =
     and_then (axis_index (length a) j) (\<lambda>r.
     and_then (axis_index (length (a ! r)) i) (\<lambda>c.
     returns (a ! r ! c)))"

text \<open>\<open>a[j, i] = v\<close>, writing a cell in place; the outcome is the array after the write.\<close>

definition np_set :: "array \<Rightarrow> int \<Rightarrow> int \<Rightarrow> int \<Rightarrow> array outcome" where
  "np_set a j i v =
     and_then (axis_index (length a) j) (\<lambda>r.
     and_then (axis_index (length (a ! r)) i) (\<lambda>c.
     returns (a[r := (a ! r)[c := v]])))"

section \<open>Reading the board\<close>

text \<open>
  The methods of this section read \<open>self.board\<close> and nothing else of the object, and they
  write nothing. Each is a function of the array \<open>self.board\<close> refers to when it is called.
\<close>

text \<open>\<open>get_size\<close>: \<open>[len(self.board[0]), len(self.board)]\<close>, the pair (width, height).\<close>

definition get_size :: "array \<Rightarrow> (int \<times> int) outcome" where
  "get_size a =
     and_then (first_row a) (\<lambda>r. returns (int (length r), int (length a)))"

text \<open>The two kinds of loop of \<open>shift_positions\<close>: \<open>while(x < 0): x += n\<close> and
  \<open>while(x >= n): x -= n\<close>. Neither need terminate.\<close>

partial_function (option) while_negative :: "int \<Rightarrow> int \<Rightarrow> int option" where
  "while_negative x n = (if x < 0 then while_negative (x + n) n else Some x)"

partial_function (option) while_too_big :: "int \<Rightarrow> int \<Rightarrow> int option" where
  "while_too_big x n = (if x \<ge> n then while_too_big (x - n) n else Some x)"

declare while_negative.simps [code]

declare while_too_big.simps [code]

definition run_loop :: "int option \<Rightarrow> int outcome" where
  "run_loop r = map_option Inr r"

definition shift_positions :: "array \<Rightarrow> int \<Rightarrow> int \<Rightarrow> (int \<times> int) outcome" where
  "shift_positions a x y =
     and_then (get_size a) (\<lambda>size_x. let x_len = fst size_x in
     and_then (get_size a) (\<lambda>size_y. let y_len = snd size_y in
     and_then (run_loop (while_negative x x_len)) (\<lambda>x.
     and_then (run_loop (while_too_big x x_len)) (\<lambda>x.
     and_then (run_loop (while_negative y y_len)) (\<lambda>y.
     and_then (run_loop (while_too_big y y_len)) (\<lambda>y.
     returns (x, y)))))))"

text \<open>
  \<open>get_neighbors\<close>: the loops visit the nine cells of the 3 by 3 block around \<open>(x, y)\<close>,
  the cell itself among them, and count those equal to 1; the cell itself is taken off
  again after the loops.
\<close>

definition get_neighbors :: "array \<Rightarrow> int \<Rightarrow> int \<Rightarrow> int outcome" where
  "get_neighbors a x y =
     and_then
       (for_loop [x - 1, x, x + 1] (\<lambda>i.
          for_loop [y - 1, y, y + 1] (\<lambda>j n_neighbors.
            and_then (shift_positions a i j) (\<lambda>new.
            and_then (np_get a (snd new) (fst new)) (\<lambda>c.
            returns (if c = 1 then n_neighbors + 1 else n_neighbors))))) 0)
       (\<lambda>n_neighbors.
     and_then (np_get a y x) (\<lambda>c.
     returns (if c = 1 then n_neighbors - 1 else n_neighbors)))"

definition update_cell :: "array \<Rightarrow> int \<Rightarrow> int \<Rightarrow> int outcome" where
  "update_cell a x y =
     and_then (get_neighbors a x y) (\<lambda>n_neighbors.
     and_then (np_get a y x) (\<lambda>c.
       if c = 0 then
         (if n_neighbors = 3 then returns 1 else np_get a y x)
       else
         (if n_neighbors < 2 \<or> n_neighbors > 3 then returns 0 else np_get a y x)))"

section \<open>The object and the arrays it refers to\<close>

text \<open>
  Arrays are objects: two names can refer to one array, and \<open>tick\<close> writes into an array
  in place. The store holds every array that exists, an address is a position in it, and
  a field of the object that holds an array holds its address. \<open>copy.copy\<close> of an array
  makes a new array with the same cells, at an address not used before.
\<close>

type_synonym addr = nat

type_synonym store = "array list"

definition copy :: "store \<Rightarrow> addr \<Rightarrow> store \<times> addr" where
  "copy s p = (s @ [s ! p], length s)"

definition new_array :: "store \<Rightarrow> array \<Rightarrow> store \<times> addr" where
  "new_array s a = (s @ [a], length s)"

record GameBoard =
  history :: "addr list"
  board :: addr
  initial_board :: addr

definition get_board :: "GameBoard \<Rightarrow> addr" where
  "get_board self = board self"

definition get_initial_board :: "GameBoard \<Rightarrow> addr" where
  "get_initial_board self = initial_board self"

definition get_animation :: "GameBoard \<Rightarrow> addr list" where
  "get_animation self = history self"

text \<open>
  \<open>tick\<close>. The loops read \<open>self.board\<close> in the store as it is at that moment, and write
  \<open>temp_board\<close> in place; \<open>self.board\<close> is bound to the array of \<open>temp_board\<close> at the end
  (\<open>del temp_board\<close> then only drops the local name).
\<close>

definition tick :: "store \<Rightarrow> GameBoard \<Rightarrow> (store \<times> GameBoard) outcome" where
  "tick s0 self0 =
     (let (s1, snapshot) = copy s0 (board self0);
          self1 = self0\<lparr>history := history self0 @ [snapshot]\<rparr>;
          (s2, temp_board) = copy s1 (board self1)
      in and_then
           (for_loop (range_py (length (s2 ! board self1))) (\<lambda>y s.
              and_then (first_row (s ! board self1)) (\<lambda>row.
              for_loop (range_py (length row)) (\<lambda>x s.
                and_then (update_cell (s ! board self1) x y) (\<lambda>v.
                and_then (np_set (s ! temp_board) y x v) (\<lambda>t.
                returns (s[temp_board := t])))) s)) s2)
           (\<lambda>s. returns (s, self1\<lparr>board := temp_board\<rparr>)))"

text \<open>A driver's loop \<open>for i in range(k): gameBoard.tick()\<close>.\<close>

definition ticks :: "nat \<Rightarrow> store \<Rightarrow> GameBoard \<Rightarrow> (store \<times> GameBoard) outcome" where
  "ticks k s self = for_loop (range_py k) (\<lambda>i st. tick (fst st) (snd st)) (s, self)"

text \<open>
  \<open>np.zeros((rows, cols))\<close> raises \<open>ValueError\<close> on a negative dimension.
\<close>

definition np_zeros :: "int \<Rightarrow> int \<Rightarrow> array outcome" where
  "np_zeros rows cols =
     (if rows < 0 \<or> cols < 0 then raises ValueError
      else returns (replicate (nat rows) (replicate (nat cols) 0)))"

text \<open>
  \<open>make_random_board\<close>. The generator is the sequence \<open>rng\<close> of the numbers its calls of
  \<open>random()\<close> return, in order; the loop state is the board and the number of calls made.
  The argument \<open>size\<close> is \<open>sz\<close>: \<open>size[0]\<close> is \<open>fst sz\<close> and \<open>size[1]\<close> is \<open>snd sz\<close>.
\<close>

definition make_random_board :: "int \<times> int \<Rightarrow> (nat \<Rightarrow> real) \<Rightarrow> array outcome" where
  "make_random_board sz rng =
     and_then (np_zeros (fst sz) (snd sz)) (\<lambda>board0.
     let spawn_chance = 0.2 in
     and_then
       (for_loop (range_py (length board0)) (\<lambda>row st.
          and_then (first_row (fst st)) (\<lambda>r.
          for_loop (range_py (length r)) (\<lambda>col st.
            let rand = rng (snd st) in
            if rand \<le> spawn_chance then
              and_then (np_set (fst st) row col 1) (\<lambda>b. returns (b, Suc (snd st)))
            else returns (fst st, Suc (snd st))) st)) (board0, 0))
       (\<lambda>st. returns (fst st)))"

text \<open>
  The constructor. \<open>board_arg\<close> is the address of the array the caller supplies, if any;
  the argument \<open>size\<close> (here \<open>sz\<close>) is looked at only when none is supplied.
\<close>

definition init ::
  "store \<Rightarrow> int \<times> int \<Rightarrow> addr option \<Rightarrow> (nat \<Rightarrow> real) \<Rightarrow> (store \<times> GameBoard) outcome" where
  "init s sz board_arg rng =
     and_then
       (case board_arg of
          Some b \<Rightarrow> returns (s, b)
        | None \<Rightarrow> and_then (make_random_board sz rng) (\<lambda>a. returns (new_array s a)))
       (\<lambda>sb. let (s', c) = copy (fst sb) (snd sb)
             in returns (s', \<lparr>history = [], board = snd sb, initial_board = c\<rparr>))"

section \<open>Board files\<close>

text \<open>
  Text is a list of ASCII characters. \<open>str(int(c))\<close> of a cell is the decimal numeral of
  \<open>c\<close>, with a minus sign when \<open>c\<close> is negative (cells are integers in this model, so
  \<open>int\<close> of a cell is the cell).
\<close>

definition digits :: string where
  "digits = ''0123456789''"

function str_nat :: "nat \<Rightarrow> string" where
  "str_nat n = (if n < 10 then [digits ! n] else str_nat (n div 10) @ [digits ! (n mod 10)])"
  by pat_completeness auto
termination
  by (relation "measure id") auto

declare str_nat.simps [simp del]

definition str_int :: "int \<Rightarrow> string" where
  "str_int i = (if i < 0 then CHR ''-'' # str_nat (nat (- i)) else str_nat (nat i))"

text \<open>
  \<open>int(tok)\<close> of a token without white space: an optional sign, then decimal digits,
  single underscores allowed between digits; anything else raises \<open>ValueError\<close>.
  (Digits outside ASCII and the limit on the length of a numeral are not modelled.)
\<close>

definition digit_value :: "char \<Rightarrow> nat option" where
  "digit_value c = (if c \<in> set digits then Some (of_char c - 48) else None)"

fun parse_digits :: "bool \<Rightarrow> nat \<Rightarrow> string \<Rightarrow> nat option" where
  "parse_digits after_digit acc [] = (if after_digit then Some acc else None)"
| "parse_digits after_digit acc (c # cs) =
     (case digit_value c of
        Some d \<Rightarrow> parse_digits True (10 * acc + d) cs
      | None \<Rightarrow> if c = CHR ''_'' \<and> after_digit then parse_digits False acc cs else None)"

definition py_int :: "string \<Rightarrow> int outcome" where
  "py_int tok =
     (let (negative, body) =
            (case tok of
               c # cs \<Rightarrow> if c = CHR ''-'' then (True, cs)
                         else if c = CHR ''+'' then (False, cs) else (False, tok)
             | [] \<Rightarrow> (False, tok))
      in case parse_digits False 0 body of
           None \<Rightarrow> raises ValueError
         | Some n \<Rightarrow> returns (if negative then - int n else int n))"

text \<open>
  \<open>line.split()\<close>: the maximal runs of characters that are not white space, in order.
  \<open>split_from tok rest\<close> has read the token \<open>tok\<close> so far.
\<close>

definition is_space :: "char \<Rightarrow> bool" where
  "is_space c = (of_char c \<in> {9, 10, 11, 12, 13, 28, 29, 30, 31, 32 :: nat})"

fun split_from :: "string \<Rightarrow> string \<Rightarrow> string list" where
  "split_from tok [] = (if tok = [] then [] else [tok])"
| "split_from tok (c # cs) =
     (if is_space c then (if tok = [] then split_from [] cs else tok # split_from [] cs)
      else split_from (tok @ [c]) cs)"

definition split :: "string \<Rightarrow> string list" where
  "split line = split_from [] line"

text \<open>
  \<open>readlines()\<close> of a file opened in text mode: carriage return and carriage return
  followed by line feed are read as a line feed, and the text is cut after every line
  feed. \<open>lines_from line rest\<close> has read \<open>line\<close> of the current line so far.
\<close>

fun universal_newlines :: "string \<Rightarrow> string" where
  "universal_newlines [] = []"
| "universal_newlines [c] = [if c = CHR 0x0D then CHR 0x0A else c]"
| "universal_newlines (c # d # cs) =
     (if c = CHR 0x0D \<and> d = CHR 0x0A then CHR 0x0A # universal_newlines cs
      else if c = CHR 0x0D then CHR 0x0A # universal_newlines (d # cs)
      else c # universal_newlines (d # cs))"

fun lines_from :: "string \<Rightarrow> string \<Rightarrow> string list" where
  "lines_from line [] = (if line = [] then [] else [line])"
| "lines_from line (c # cs) =
     (if c = CHR 0x0A then (line @ [c]) # lines_from [] cs else lines_from (line @ [c]) cs)"

definition readlines :: "string \<Rightarrow> string list" where
  "readlines content = lines_from [] (universal_newlines content)"

text \<open>A list comprehension \<open>[f(x) for x in xs]\<close>, which raises what \<open>f\<close> raises first.\<close>

fun comprehension :: "('a \<Rightarrow> 'b outcome) \<Rightarrow> 'a list \<Rightarrow> 'b list outcome" where
  "comprehension f [] = returns []"
| "comprehension f (x # xs) =
     and_then (f x) (\<lambda>v. and_then (comprehension f xs) (\<lambda>vs. returns (v # vs)))"

text \<open>
  \<open>np.array(rows)\<close> of a list of lists of integers: the array with these rows when they
  have one length, \<open>ValueError\<close> otherwise (numpy 1.24 and later). The list of rows does
  not tell the array of no rows from the one-dimensional empty array numpy makes of \<open>[]\<close>.
\<close>

definition np_array :: "int list list \<Rightarrow> array outcome" where
  "np_array rows = (if is_ndarray rows then returns rows else raises ValueError)"

text \<open>
  The files: a map from file names to contents. Opening a missing file for reading raises
  \<open>FileNotFoundError\<close>; writing stores the text as it is.
\<close>

type_synonym files = "string \<rightharpoonup> string"

definition read_board :: "string \<Rightarrow> files \<Rightarrow> array outcome" where
  "read_board filename fs =
     (case fs filename of
        None \<Rightarrow> raises FileNotFoundError
      | Some content \<Rightarrow>
          let lines = readlines content in
          and_then
            (for_loop lines (\<lambda>line board.
               let split0 = split line in
               and_then (comprehension py_int split0) (\<lambda>split1.
               returns (board @ [split1]))) [])
            (\<lambda>board. np_array board))"

definition save_board :: "array \<Rightarrow> string \<Rightarrow> files \<Rightarrow> files outcome" where
  "save_board board_arg filename fs =
     (let board_txt = '''' in
      and_then
        (for_loop (range_py (length board_arg)) (\<lambda>y board_txt.
           and_then (first_row board_arg) (\<lambda>row.
           and_then
             (for_loop (range_py (length row)) (\<lambda>x board_txt.
                and_then (np_get board_arg y x) (\<lambda>c.
                returns (board_txt @ str_int c @ '' ''))) board_txt)
             (\<lambda>board_txt. returns (board_txt @ [CHR 0x0A])))) board_txt)
        (\<lambda>board_txt. returns (fs(filename \<mapsto> board_txt))))"

section \<open>The specification's wording\<close>

text \<open>
  The definitions of this section follow the specification, not the code: the number of
  Alive cells among the eight Moore neighbours under wrap-around, the rule B3/S23, the
  two-pass scheme, and the in-place update the specification warns against. Alive is 1
  and Dead is 0.
\<close>

definition moore_offsets :: "(int \<times> int) list" where
  "moore_offsets =
     [(- 1, - 1), (- 1, 0), (- 1, 1), (0, - 1), (0, 1), (1, - 1), (1, 0), (1, 1)]"

definition spec_normalize :: "array \<Rightarrow> int \<Rightarrow> int \<Rightarrow> int \<times> int" where
  "spec_normalize g x y = (x mod int (length (hd g)), y mod int (length g))"

definition spec_cell :: "array \<Rightarrow> int \<times> int \<Rightarrow> int" where
  "spec_cell g p = g ! nat (snd p) ! nat (fst p)"

definition spec_count_neighbors :: "array \<Rightarrow> int \<Rightarrow> int \<Rightarrow> int" where
  "spec_count_neighbors g x y =
     int (length (filter (\<lambda>d. spec_cell g (spec_normalize g (x + fst d) (y + snd d)) = 1)
                         moore_offsets))"

definition spec_next_state :: "array \<Rightarrow> int \<Rightarrow> int \<Rightarrow> int" where
  "spec_next_state g x y =
     (let n = spec_count_neighbors g x y
      in if spec_cell g (x, y) = 1 then (if n = 2 \<or> n = 3 then 1 else 0)
         else (if n = 3 then 1 else 0))"

definition spec_two_pass :: "array \<Rightarrow> array" where
  "spec_two_pass g =
     (let next = map (\<lambda>y. map (\<lambda>x. spec_next_state g (int x) (int y)) [0..<length (hd g)])
                     [0..<length g]
      in next)"

definition spec_naive_in_place :: "array \<Rightarrow> array" where
  "spec_naive_in_place g =
     fold (\<lambda>y g. fold (\<lambda>x g. g[y := (g ! y)[x := spec_next_state g (int x) (int y)]])
                       [0..<length (hd g)] g)
          [0..<length g] g"

section \<open>Closed forms of the loops\<close>

text \<open>
  Auxiliary definitions for the proofs: an array of \<open>h\<close> rows of \<open>w\<close> cells each; the value
  \<open>update_cell\<close> returns for a cell in range; the array the loops of \<open>tick\<close> leave in
  \<open>temp_board\<close>; and a state in which \<open>self.board\<close> refers to an array of the store.
\<close>

definition shaped :: "nat \<Rightarrow> nat \<Rightarrow> array \<Rightarrow> bool" where
  "shaped h w t \<longleftrightarrow> length t = h \<and> (\<forall>r<h. length (t ! r) = w)"

definition next_cell :: "array \<Rightarrow> int \<Rightarrow> int \<Rightarrow> int" where
  "next_cell a x y =
     (let c = spec_cell a (x, y); n = spec_count_neighbors a x y
      in if c = 0 then (if n = 3 then 1 else c)
         else (if n < 2 \<or> n > 3 then 0 else c))"

definition next_board :: "array \<Rightarrow> array" where
  "next_board a =
     map (\<lambda>y. map (\<lambda>x. next_cell a (int x) (int y)) [0..<length (hd a)]) [0..<length a]"

definition live :: "store \<Rightarrow> GameBoard \<Rightarrow> bool" where
  "live s self \<longleftrightarrow> board self < length s \<and> is_ndarray (s ! board self)"

text \<open>
  The arrays that \<open>k\<close> calls of \<open>tick\<close> add to the store, two for each call (the copy
  appended to \<open>history\<close>, and \<open>temp_board\<close>), from a live grid \<open>a\<close>; and the address
  \<open>self.board\<close> holds after them.
\<close>

definition tick_arrays :: "nat \<Rightarrow> array \<Rightarrow> array list" where
  "tick_arrays k a = concat (map (\<lambda>i. [(next_board ^^ i) a, (next_board ^^ Suc i) a]) [0..<k])"

definition board_after :: "nat \<Rightarrow> store \<Rightarrow> GameBoard \<Rightarrow> addr" where
  "board_after k s self = (if k = 0 then board self else length s + 2 * k - 1)"

text \<open>
  The argument \<open>board\<close> of the constructor, when given, is the address of a two-dimensional
  array of the store.
\<close>

definition supplied_ok :: "store \<Rightarrow> addr option \<Rightarrow> bool" where
  "supplied_ok s board_arg =
     (case board_arg of None \<Rightarrow> True | Some b \<Rightarrow> b < length s \<and> is_ndarray (s ! b))"

text \<open>A generator whose every call of \<open>random()\<close> returns \<open>r\<close>, for concrete runs.\<close>

definition rng_const :: "real \<Rightarrow> nat \<Rightarrow> real" where
  "rng_const r k = r"

text \<open>The text \<open>save_board\<close> writes for a row and for a board; a row of cells 0 and 1.\<close>

definition row_text :: "int list \<Rightarrow> string" where
  "row_text row = concat (map (\<lambda>c. str_int c @ '' '') row)"

definition board_text :: "array \<Rightarrow> string" where
  "board_text a = concat (map (\<lambda>row. row_text row @ [CHR 0x0A]) a)"

definition bits :: "int list \<Rightarrow> bool" where
  "bits row = list_all (\<lambda>c. c = 0 \<or> c = 1) row"

section \<open>Properties\<close>

subsection \<open>Outcomes\<close>

lemma and_then_returns [simp]: "and_then (returns v) f = f v"
  by (simp add: and_then_def returns_def)

lemma and_then_raises [simp]: "and_then (raises e) f = raises e"
  by (simp add: and_then_def raises_def)

lemma and_then_None [simp]: "and_then None f = None"
  by (simp add: and_then_def)

lemma run_loop_Some [simp]: "run_loop (Some v) = returns v"
  by (simp add: run_loop_def returns_def)

lemma returns_inject [simp]: "returns v = returns w \<longleftrightarrow> v = w"
  by (simp add: returns_def)

lemma returns_not_raises [simp]: "returns v \<noteq> raises e" "raises e \<noteq> returns v"
  by (simp_all add: returns_def raises_def)

lemma returns_not_None [simp]: "returns v \<noteq> None" "None \<noteq> returns v"
  by (simp_all add: returns_def)

subsection \<open>Coordinate normalisation\<close>

lemma while_negative_mod:
  assumes "0 < n"
  shows "while_negative x n = Some (if x < 0 then x mod n else x)"
proof (induction "nat (- x)" arbitrary: x rule: less_induct)
  case less
  show ?case
  proof (cases "x < 0")
    case False
    then show ?thesis by (simp add: while_negative.simps)
  next
    case True
    with assms have "nat (- (x + n)) < nat (- x)" by simp
    from less [OF this] have
      step: "while_negative (x + n) n = Some (if x + n < 0 then (x + n) mod n else x + n)" .
    have shifted: "(x + n) mod n = x mod n" by simp
    have "(if x + n < 0 then (x + n) mod n else x + n) = x mod n"
    proof (cases "x + n < 0")
      case True
      then show ?thesis using shifted by simp
    next
      case False
      with \<open>x < 0\<close> have "(x + n) mod n = x + n"
        by (intro mod_pos_pos_trivial) simp_all
      with False shifted show ?thesis by simp
    qed
    with step True show ?thesis
      by (subst while_negative.simps) simp
  qed
qed

lemma while_too_big_mod:
  assumes "0 < n" and "0 \<le> x"
  shows "while_too_big x n = Some (x mod n)"
  using assms(2)
proof (induction "nat x" arbitrary: x rule: less_induct)
  case less
  show ?case
  proof (cases "x \<ge> n")
    case False
    with less.prems have "x mod n = x" by (intro mod_pos_pos_trivial) simp_all
    with False show ?thesis by (simp add: while_too_big.simps)
  next
    case True
    with assms(1) less.prems have "nat (x - n) < nat x" and "0 \<le> x - n" by simp_all
    from less.hyps [OF this] have "while_too_big (x - n) n = Some ((x - n) mod n)" .
    with True show ?thesis
      by (subst while_too_big.simps) simp
  qed
qed

lemma normalise_axis:
  assumes "0 < n"
  shows "and_then (run_loop (while_negative x n)) (\<lambda>x.
         and_then (run_loop (while_too_big x n)) f) = f (x mod n)"
proof (cases "x < 0")
  case True
  with assms have "0 \<le> x mod n" and "x mod n mod n = x mod n" by simp_all
  with assms True show ?thesis
    by (simp add: while_negative_mod while_too_big_mod)
next
  case False
  with assms show ?thesis
    by (simp add: while_negative_mod while_too_big_mod)
qed

lemma get_size_Cons [simp]:
  "get_size (r # rs) = returns (int (length r), 1 + int (length rs))"
  by (simp add: get_size_def first_row_def)

lemma get_size_Nil [simp]: "get_size [] = raises IndexError"
  by (simp add: get_size_def first_row_def)

lemma get_size_rows:
  "a \<noteq> [] \<Longrightarrow> get_size a = returns (int (length (hd a)), int (length a))"
  by (cases a) simp_all

lemma shift_positions_mod:
  assumes "a \<noteq> []" and "hd a \<noteq> []"
  shows "shift_positions a x y =
           returns (x mod int (length (hd a)), y mod int (length a))"
proof -
  from assms have w: "0 < int (length (hd a))" and h: "0 < int (length a)" by simp_all
  show ?thesis
    unfolding shift_positions_def
    by (simp add: get_size_rows [OF assms(1)] Let_def
                  normalise_axis [OF w] normalise_axis [OF h])
qed

text \<open>
  C4. On a board with at least one column and one row, \<open>shift_positions(x, y)\<close> returns
  for all integers \<open>x\<close> and \<open>y\<close>, however far outside the grid: the result \<open>(x', y')\<close> has
  \<open>0 \<le> x' < width\<close> and \<open>0 \<le> y' < height\<close>, with \<open>x' = x mod width\<close> and
  \<open>y' = y mod height\<close> (the remainder that is never negative). The call yields a pair of
  numbers only: no board state is produced, so none is changed.
\<close>

theorem shift_positions_total_mod:
  assumes "get_size a = returns (width, height)" and "1 \<le> width" and "1 \<le> height"
  shows "\<exists>x' y'. shift_positions a x y = returns (x', y')
           \<and> 0 \<le> x' \<and> x' < width \<and> 0 \<le> y' \<and> y' < height
           \<and> x' = x mod width \<and> y' = y mod height"
proof -
  from assms(1) have rows: "a \<noteq> []" by (cases a) simp_all
  with assms(1) have dims: "width = int (length (hd a))" "height = int (length a)"
    by (simp_all add: get_size_rows)
  with assms(2) have cols: "hd a \<noteq> []" by auto
  from assms(2,3) have "0 \<le> x mod width" "x mod width < width"
    "0 \<le> y mod height" "y mod height < height" by simp_all
  with shift_positions_mod [OF rows cols, of x y] dims show ?thesis by simp
qed

theorem shift_positions_total_mod_witness:
  "get_size [[0, 1, 0], [1, 1, 0]] = returns (3, 2)
   \<and> shift_positions [[0, 1, 0], [1, 1, 0]] (- 7) 1000 = returns (2, 0)"
proof -
  have size: "get_size [[0, 1, 0], [1, 1, 0]] = returns (3, 2)" by simp
  from shift_positions_total_mod [OF size, of "- 7" 1000] size show ?thesis by simp
qed

subsection \<open>Counting neighbours\<close>

lemma axis_index_in_range [simp]:
  "0 \<le> i \<Longrightarrow> i < int n \<Longrightarrow> axis_index n i = returns (nat i)"
  by (simp add: axis_index_def)

lemma is_ndarray_row: "is_ndarray a \<Longrightarrow> r < length a \<Longrightarrow> length (a ! r) = length (hd a)"
  by (simp add: is_ndarray_def list_all_length)

lemma np_get_in_range:
  assumes "is_ndarray a" and "0 \<le> j" and "j < int (length a)"
    and "0 \<le> i" and "i < int (length (hd a))"
  shows "np_get a j i = returns (a ! nat j ! nat i)"
proof -
  from assms(2,3) have "nat j < length a" by simp
  with assms(1) have "length (a ! nat j) = length (hd a)" by (rule is_ndarray_row)
  with assms show ?thesis by (simp add: np_get_def)
qed

lemma visit_cell:
  assumes "is_ndarray a" and "a \<noteq> []" and "hd a \<noteq> []"
  shows "and_then (shift_positions a i j) (\<lambda>new.
         and_then (np_get a (snd new) (fst new)) f)
         = f (spec_cell a (spec_normalize a i j))"
proof -
  from assms(2,3) have "0 < int (length a)" and "0 < int (length (hd a))" by simp_all
  then have "0 \<le> j mod int (length a)" "j mod int (length a) < int (length a)"
    "0 \<le> i mod int (length (hd a))" "i mod int (length (hd a)) < int (length (hd a))"
    by simp_all
  then show ?thesis
    using assms
    by (simp add: shift_positions_mod np_get_in_range spec_cell_def spec_normalize_def)
qed

lemma count_filter_of_bool:
  "int (length (filter P xs)) = (\<Sum>x\<leftarrow>xs. of_bool (P x))"
  by (induction xs) simp_all

lemma count_up: "(if c then n + 1 else n) = n + (of_bool c :: int)"
  by simp

lemma count_down: "(if c then n - 1 else n) = n - (of_bool c :: int)"
  by simp

lemma get_neighbors_count:
  assumes "is_ndarray a" and "0 \<le> x" and "x < int (length (hd a))"
    and "0 \<le> y" and "y < int (length a)"
  shows "get_neighbors a x y = returns (spec_count_neighbors a x y)"
proof -
  from assms have rows: "a \<noteq> []" and cols: "hd a \<noteq> []" by auto
  have centre: "spec_normalize a x y = (x, y)"
    using assms by (simp add: spec_normalize_def)
  have here: "np_get a y x = returns (spec_cell a (x, y))"
    using assms by (simp add: np_get_in_range spec_cell_def)
  show ?thesis
    unfolding get_neighbors_def spec_count_neighbors_def count_filter_of_bool moore_offsets_def
    by (simp add: visit_cell [OF assms(1) rows cols] here centre count_up count_down
             del: of_bool_eq_iff)
qed

subsection \<open>Loops as folds\<close>

lemma update_cell_next_cell:
  assumes "is_ndarray a" and "0 \<le> x" and "x < int (length (hd a))"
    and "0 \<le> y" and "y < int (length a)"
  shows "update_cell a x y = returns (next_cell a x y)"
proof -
  have here: "np_get a y x = returns (spec_cell a (x, y))"
    using assms by (simp add: np_get_in_range spec_cell_def)
  show ?thesis
    by (simp add: update_cell_def get_neighbors_count [OF assms] here next_cell_def Let_def)
qed

lemma for_loop_fold:
  assumes "\<And>i t. i \<in> set xs \<Longrightarrow> Q t \<Longrightarrow> body i (emb t) = returns (emb (G i t)) \<and> Q (G i t)"
    and "Q t"
  shows "for_loop xs body (emb t) = returns (emb (fold G xs t)) \<and> Q (fold G xs t)"
  using assms
proof (induction xs arbitrary: t)
  case Nil
  then show ?case by simp
next
  case (Cons i xs)
  from Cons.prems(1) [of i t] Cons.prems(2)
  have step: "body i (emb t) = returns (emb (G i t))" and inv: "Q (G i t)" by simp_all
  have "for_loop xs body (emb (G i t)) = returns (emb (fold G xs (G i t)))
        \<and> Q (fold G xs (G i t))"
    using Cons.prems(1) inv by (intro Cons.IH) simp_all
  with step show ?case by simp
qed

lemma fold_update_prefix:
  "k \<le> length r \<Longrightarrow> fold (\<lambda>x r. r[x := F x]) [0..<k] r = map F [0..<k] @ drop k r"
proof (induction k)
  case 0
  then show ?case by simp
next
  case (Suc k)
  then have "k < length r" by simp
  then have "(map F [0..<k] @ drop k r)[k := F k] = map F [0..<k] @ F k # drop (Suc k) r"
    by (simp add: list_update_append flip: Cons_nth_drop_Suc)
  with Suc show ?case by simp
qed

lemma fold_update_all:
  "length r = n \<Longrightarrow> fold (\<lambda>x r. r[x := F x]) [0..<n] r = map F [0..<n]"
  by (simp add: fold_update_prefix)

lemma fold_update_row:
  "y < length t \<Longrightarrow>
   fold (\<lambda>x t. t[y := (t ! y)[x := F x]]) xs t = t[y := fold (\<lambda>x r. r[x := F x]) xs (t ! y)]"
  by (induction xs arbitrary: t) simp_all

subsection \<open>One tick\<close>

lemma for_loop_range_py:
  "for_loop (range_py n) body s = for_loop [0..<n] (\<lambda>k. body (int k)) s"
proof -
  have "for_loop (map int xs) body = for_loop xs (\<lambda>k. body (int k))" for xs
  proof (induction xs)
    case Nil
    show ?case by (rule ext) simp
  next
    case (Cons k xs)
    show ?case by (rule ext) (simp add: Cons.IH)
  qed
  then show ?thesis by (simp add: range_py_def)
qed

lemma temp_nth: "(s @ [g, t]) ! Suc (length s) = t"
  by (simp add: nth_append)

lemma temp_update: "(s @ [g, t])[Suc (length s) := t'] = s @ [g, t']"
  by (simp add: list_update_append)

lemma board_nth: "b < length s \<Longrightarrow> (s @ [g, t]) ! b = s ! b"
  by (simp add: nth_append)

lemma np_set_in_range:
  assumes "y < length t" and "x < length (t ! y)"
  shows "np_set t (int y) (int x) v = returns (t[y := (t ! y)[x := v]])"
  using assms by (simp add: np_set_def)

lemma tick_row:
  assumes nd: "is_ndarray (s ! b)" and b: "b < length s" and y: "y < length (s ! b)"
    and t: "shaped (length (s ! b)) (length (hd (s ! b))) t"
  shows "for_loop (range_py (length (hd (s ! b))))
           (\<lambda>x s'. and_then (update_cell (s' ! b) x (int y)) (\<lambda>v.
                    and_then (np_set (s' ! Suc (length s)) (int y) x v) (\<lambda>t'.
                    returns (s'[Suc (length s) := t'])))) (s @ [g, t])
         = returns (s @ [g, t[y := map (\<lambda>x. next_cell (s ! b) (int x) (int y))
                                       [0..<length (hd (s ! b))]]])"
proof -
  let ?a = "s ! b"
  let ?h = "length ?a" and ?w = "length (hd ?a)"
  let ?G = "\<lambda>x t. t[y := (t ! y)[x := next_cell ?a (int x) (int y)]]"
  have step: "and_then (update_cell ((s @ [g, u]) ! b) (int x) (int y)) (\<lambda>v.
              and_then (np_set ((s @ [g, u]) ! Suc (length s)) (int y) (int x) v) (\<lambda>t'.
              returns ((s @ [g, u])[Suc (length s) := t'])))
              = returns (s @ [g, ?G x u]) \<and> shaped ?h ?w (?G x u)"
    if "x \<in> set [0..<?w]" and "shaped ?h ?w u" for x u
  proof -
    from that have x: "x < ?w" by simp
    from that y have len: "y < length u" "x < length (u ! y)"
      using x by (simp_all add: shaped_def)
    have "update_cell ?a (int x) (int y) = returns (next_cell ?a (int x) (int y))"
      using nd x y by (intro update_cell_next_cell) simp_all
    moreover have "shaped ?h ?w (?G x u)"
      using that(2) y by (auto simp: shaped_def nth_list_update)
    ultimately show ?thesis
      by (simp add: board_nth [OF b] temp_nth temp_update np_set_in_range [OF len])
  qed
  have "for_loop [0..<?w]
          (\<lambda>x s'. and_then (update_cell (s' ! b) (int x) (int y)) (\<lambda>v.
                   and_then (np_set (s' ! Suc (length s)) (int y) (int x) v) (\<lambda>t'.
                   returns (s'[Suc (length s) := t'])))) (s @ [g, t])
        = returns (s @ [g, fold ?G [0..<?w] t]) \<and> shaped ?h ?w (fold ?G [0..<?w] t)"
    by (rule for_loop_fold [where emb = "\<lambda>u. s @ [g, u]" and Q = "shaped ?h ?w"])
       (use step t in simp_all)
  moreover have "fold ?G [0..<?w] t
                 = t[y := map (\<lambda>x. next_cell ?a (int x) (int y)) [0..<?w]]"
    using y t by (simp add: fold_update_row fold_update_all shaped_def)
  ultimately show ?thesis by (simp add: for_loop_range_py)
qed

lemma tick_rows:
  assumes nd: "is_ndarray (s ! b)" and b: "b < length s"
    and t: "shaped (length (s ! b)) (length (hd (s ! b))) t"
  shows "for_loop (range_py (length (s ! b)))
           (\<lambda>y s'. and_then (first_row (s' ! b)) (\<lambda>row.
              for_loop (range_py (length row))
                (\<lambda>x s'. and_then (update_cell (s' ! b) x y) (\<lambda>v.
                         and_then (np_set (s' ! Suc (length s)) y x v) (\<lambda>t'.
                         returns (s'[Suc (length s) := t'])))) s')) (s @ [g, t])
         = returns (s @ [g, next_board (s ! b)])"
proof -
  let ?a = "s ! b"
  let ?h = "length ?a" and ?w = "length (hd ?a)"
  let ?R = "\<lambda>y. map (\<lambda>x. next_cell ?a (int x) (int y)) [0..<?w]"
  let ?G = "\<lambda>y t. t[y := ?R y]"
  let ?body = "\<lambda>y s'. and_then (first_row (s' ! b)) (\<lambda>row.
              for_loop (range_py (length row))
                (\<lambda>x s'. and_then (update_cell (s' ! b) x y) (\<lambda>v.
                         and_then (np_set (s' ! Suc (length s)) y x v) (\<lambda>t'.
                         returns (s'[Suc (length s) := t'])))) s')"
  have step: "?body (int y) (s @ [g, u]) = returns (s @ [g, ?G y u]) \<and> shaped ?h ?w (?G y u)"
    if "y \<in> set [0..<?h]" and "shaped ?h ?w u" for y u
  proof -
    from that have y: "y < ?h" by simp
    then have "first_row ?a = returns (hd ?a)"
      by (cases ?a) (simp_all add: first_row_def)
    moreover have "shaped ?h ?w (?G y u)"
      using that(2) y by (auto simp: shaped_def nth_list_update)
    ultimately show ?thesis
      by (simp add: board_nth [OF b] tick_row [OF nd b y that(2)])
  qed
  have "for_loop [0..<?h] (\<lambda>y. ?body (int y)) (s @ [g, t])
        = returns (s @ [g, fold ?G [0..<?h] t]) \<and> shaped ?h ?w (fold ?G [0..<?h] t)"
    by (rule for_loop_fold [where emb = "\<lambda>u. s @ [g, u]" and Q = "shaped ?h ?w"])
       (use step t in simp_all)
  moreover have "fold ?G [0..<?h] t = next_board ?a"
    using t by (simp add: fold_update_all shaped_def next_board_def)
  ultimately show ?thesis by (simp add: for_loop_range_py)
qed

lemma is_ndarray_shaped: "is_ndarray a \<Longrightarrow> shaped (length a) (length (hd a)) a"
  by (simp add: shaped_def is_ndarray_row)

lemma tick_closed_form:
  assumes "is_ndarray (s ! board self)" and "board self < length s"
  shows "tick s self =
           returns (s @ [s ! board self, next_board (s ! board self)],
                    self\<lparr>history := history self @ [length s], board := Suc (length s)\<rparr>)"
  using assms
  by (simp add: tick_def copy_def nth_append tick_rows is_ndarray_shaped)

subsection \<open>The neighbour count and the rule\<close>

lemma moore_offsets_block:
  "set moore_offsets = {- 1, 0, 1} \<times> {- 1, 0, 1} - {(0, 0)}" "distinct moore_offsets"
  by (auto simp: moore_offsets_def)

lemma get_size_dims:
  assumes "get_size a = returns (width, height)"
  shows "a \<noteq> []" and "width = int (length (hd a))" and "height = int (length a)"
  using assms by (cases a; simp)+

text \<open>
  C3. For a cell \<open>(x, y)\<close> in range, \<open>get_neighbors(x, y)\<close> returns the number of offsets
  \<open>(dx, dy)\<close>, among the eight of the 3 by 3 block without its centre \<open>(0, 0)\<close>, at which
  the cell \<open>((x + dx) mod width, (y + dy) mod height)\<close> is Alive. The centre is not among
  the offsets, and one formula serves every cell in range: edge, corner or interior.
  (On a board narrower or lower than 3 several offsets wrap to one cell, the cell itself
  included, which is then counted once for each offset.) The cells need not be 0 or 1:
  the cells equal to 1 are the ones counted.
\<close>

theorem get_neighbors_moore:
  assumes "is_ndarray a" and "get_size a = returns (width, height)"
    and "0 \<le> x" and "x < width" and "0 \<le> y" and "y < height"
  shows "get_neighbors a x y =
           returns (int (length (filter
             (\<lambda>d. a ! nat ((y + snd d) mod height) ! nat ((x + fst d) mod width) = 1)
             moore_offsets)))
         \<and> set moore_offsets = {- 1, 0, 1} \<times> {- 1, 0, 1} - {(0, 0)}
         \<and> distinct moore_offsets"
proof -
  note dims = get_size_dims [OF assms(2)]
  from assms dims have "get_neighbors a x y = returns (spec_count_neighbors a x y)"
    by (intro get_neighbors_count) simp_all
  with dims show ?thesis
    by (simp add: spec_count_neighbors_def spec_cell_def spec_normalize_def
                  moore_offsets_block)
qed

theorem get_neighbors_moore_witness:
  "is_ndarray [[1, 0, 1], [0, 0, 1]] \<and> get_size [[1, 0, 1], [0, 0, 1]] = returns (3, 2)
   \<and> get_neighbors [[1, 0, 1], [0, 0, 1]] 0 0 = returns 3"
proof -
  have nd: "is_ndarray [[1, 0, 1], [0, 0, 1]]" by (simp add: is_ndarray_def)
  have size: "get_size [[1, 0, 1], [0, 0, 1]] = returns (3, 2)" by simp
  have "int (length (filter
             (\<lambda>d. [[1, 0, 1], [0, 0, 1]] ! nat ((0 + snd d) mod 2) ! nat ((0 + fst d) mod 3) = (1::int))
             moore_offsets)) = 3"
    by (simp add: moore_offsets_def)
  with get_neighbors_moore [OF nd size, of 0 0] nd size show ?thesis by simp
qed

lemma binary_cell:
  assumes "binary a" and "j < length a" and "i < length (a ! j)"
  shows "a ! j ! i = 0 \<or> a ! j ! i = 1"
  using assms by (simp add: binary_def list_all_length)

lemma next_cell_binary:
  assumes "spec_cell a (x, y) = 0 \<or> spec_cell a (x, y) = 1"
  shows "next_cell a x y = spec_next_state a x y"
  using assms by (auto simp: next_cell_def spec_next_state_def Let_def)

text \<open>
  C2. On a board of cells 0 and 1 and for a cell \<open>(x, y)\<close> in range, with \<open>n\<close> the number
  \<open>get_neighbors(x, y)\<close> returns and \<open>c\<close> the cell: \<open>update_cell(x, y)\<close> returns 1 when
  \<open>c\<close> is 1 and \<open>n\<close> is 2 or 3, 0 when \<open>c\<close> is 1 and \<open>n\<close> is anything else, 1 when \<open>c\<close> is 0
  and \<open>n\<close> is 3, and 0 when \<open>c\<close> is 0 and \<open>n\<close> is anything else.
\<close>

theorem update_cell_b3s23:
  assumes "is_ndarray a" and "binary a" and "get_size a = returns (width, height)"
    and "0 \<le> x" and "x < width" and "0 \<le> y" and "y < height"
  shows "\<exists>n c. get_neighbors a x y = returns n \<and> np_get a y x = returns c
           \<and> update_cell a x y =
               returns (if c = 1 then (if n = 2 \<or> n = 3 then 1 else 0)
                        else (if n = 3 then 1 else 0))"
proof -
  note dims = get_size_dims [OF assms(3)]
  from assms dims have range: "0 \<le> x" "x < int (length (hd a))" "0 \<le> y" "y < int (length a)"
    by simp_all
  from range have "nat y < length a" by simp
  moreover from this assms(1) range have "nat x < length (a ! nat y)"
    by (simp add: is_ndarray_row)
  ultimately have cell: "spec_cell a (x, y) = 0 \<or> spec_cell a (x, y) = 1"
    using binary_cell [OF assms(2)] by (simp add: spec_cell_def)
  have "get_neighbors a x y = returns (spec_count_neighbors a x y)"
    using assms(1) range by (rule get_neighbors_count)
  moreover have "np_get a y x = returns (spec_cell a (x, y))"
    using assms(1) range by (simp add: np_get_in_range spec_cell_def)
  moreover have "update_cell a x y = returns (spec_next_state a x y)"
    using update_cell_next_cell [OF assms(1) range] next_cell_binary [OF cell] by simp
  ultimately show ?thesis
    by (simp add: spec_next_state_def Let_def)
qed

theorem update_cell_b3s23_witness:
  "is_ndarray [[1, 0, 1], [0, 0, 1]] \<and> binary [[1, 0, 1], [0, 0, 1]]
   \<and> get_size [[1, 0, 1], [0, 0, 1]] = returns (3, 2)
   \<and> get_neighbors [[1, 0, 1], [0, 0, 1]] 0 0 = returns 3
   \<and> np_get [[1, 0, 1], [0, 0, 1]] 0 0 = returns 1
   \<and> update_cell [[1, 0, 1], [0, 0, 1]] 0 0 = returns 1"
proof -
  have nd: "is_ndarray [[1, 0, 1], [0, 0, 1]]" by (simp add: is_ndarray_def)
  have bin: "binary [[1, 0, 1], [0, 0, 1]]" by (simp add: binary_def)
  have size: "get_size [[1, 0, 1], [0, 0, 1]] = returns (3, 2)" by simp
  have n: "get_neighbors [[1, 0, 1], [0, 0, 1]] 0 0 = returns 3" by code_simp
  have c: "np_get [[1, 0, 1], [0, 0, 1]] 0 0 = returns 1" by code_simp
  from update_cell_b3s23 [OF nd bin size, of 0 0] n c nd bin size show ?thesis by simp
qed

subsection \<open>Simultaneous update\<close>

lemma next_board_two_pass:
  assumes "is_ndarray a" and "binary a"
  shows "next_board a = spec_two_pass a"
proof -
  have "next_cell a (int x) (int y) = spec_next_state a (int x) (int y)"
    if "y < length a" and "x < length (hd a)" for x y
  proof -
    from that assms(1) have "x < length (a ! y)" by (simp add: is_ndarray_row)
    with binary_cell [OF assms(2) that(1)] show ?thesis
      by (intro next_cell_binary) (simp add: spec_cell_def)
  qed
  then show ?thesis by (simp add: next_board_def spec_two_pass_def)
qed

text \<open>
  C1. One call of \<open>tick\<close> on a board of cells 0 and 1 leaves as the live grid the grid
  of the two-pass scheme: every cell's next state computed by the rule from the grid as it
  was before the call, and installed only afterwards. The array that was the live grid
  before the call is not written to. This holds for every grid, the horizontal blinker
  among them, on which updating in place, left to right and top to bottom, gives
  another grid.
\<close>

theorem tick_simultaneous:
  assumes "board self < length s" and "is_ndarray (s ! board self)"
    and "binary (s ! board self)"
  shows "\<exists>s' self'. tick s self = returns (s', self')
           \<and> s' ! board self' = spec_two_pass (s ! board self)
           \<and> s' ! board self = s ! board self"
  using assms
  by (simp add: tick_closed_form next_board_two_pass nth_append)

theorem tick_simultaneous_witness:
  "is_ndarray [[0, 0, 0, 0, 0], [0, 0, 0, 0, 0], [0, 1, 1, 1, 0], [0, 0, 0, 0, 0], [0, 0, 0, 0, 0]]
   \<and> binary [[0, 0, 0, 0, 0], [0, 0, 0, 0, 0], [0, 1, 1, 1, 0], [0, 0, 0, 0, 0], [0, 0, 0, 0, 0]]
   \<and> (\<exists>s' self'.
        tick [[[0, 0, 0, 0, 0], [0, 0, 0, 0, 0], [0, 1, 1, 1, 0], [0, 0, 0, 0, 0], [0, 0, 0, 0, 0]]]
             \<lparr>history = [], board = 0, initial_board = 0\<rparr> = returns (s', self')
        \<and> s' ! board self'
            = [[0, 0, 0, 0, 0], [0, 0, 1, 0, 0], [0, 0, 1, 0, 0], [0, 0, 1, 0, 0], [0, 0, 0, 0, 0]])
   \<and> spec_naive_in_place
        [[0, 0, 0, 0, 0], [0, 0, 0, 0, 0], [0, 1, 1, 1, 0], [0, 0, 0, 0, 0], [0, 0, 0, 0, 0]]
       = [[0, 0, 0, 0, 0], [0, 0, 1, 1, 0], [0, 1, 0, 1, 0], [0, 0, 0, 0, 0], [0, 0, 0, 0, 0]]"
proof -
  let ?g = "[[0, 0, 0, 0, 0], [0, 0, 0, 0, 0], [0, 1, 1, 1, 0], [0, 0, 0, 0, 0], [0, 0, 0, 0, 0 :: int]]"
  let ?self = "\<lparr>history = [], board = 0, initial_board = 0\<rparr>"
  have nd: "is_ndarray ([?g] ! board ?self)" by (simp add: is_ndarray_def)
  have bin: "binary ([?g] ! board ?self)" by (simp add: binary_def)
  have two: "spec_two_pass ?g
             = [[0, 0, 0, 0, 0], [0, 0, 1, 0, 0], [0, 0, 1, 0, 0], [0, 0, 1, 0, 0], [0, 0, 0, 0, 0]]"
    by code_simp
  have naive: "spec_naive_in_place ?g
       = [[0, 0, 0, 0, 0], [0, 0, 1, 1, 0], [0, 1, 0, 1, 0], [0, 0, 0, 0, 0], [0, 0, 0, 0, 0]]"
    by code_simp
  have "board ?self < length [?g]" by simp
  from tick_simultaneous [OF this nd bin] obtain s' self'
    where "tick [?g] ?self = returns (s', self')"
      and "s' ! board self' = spec_two_pass ([?g] ! board ?self)"
    by blast
  with two have "\<exists>s' self'. tick [?g] ?self = returns (s', self')
        \<and> s' ! board self'
            = [[0, 0, 0, 0, 0], [0, 0, 1, 0, 0], [0, 0, 1, 0, 0], [0, 0, 1, 0, 0], [0, 0, 0, 0, 0]]"
    by simp
  with naive nd bin show ?thesis by simp
qed

subsection \<open>The random board and the constructor\<close>

lemma and_then_assoc:
  "and_then (and_then m f) g = and_then m (\<lambda>v. and_then (f v) g)"
  by (simp add: and_then_def split: option.splits sum.splits)

lemma for_loop_append:
  "for_loop (xs @ ys) body s = and_then (for_loop xs body s) (for_loop ys body)"
proof (induction xs arbitrary: s)
  case Nil
  show ?case by simp
next
  case (Cons i xs)
  have "for_loop (xs @ ys) body = (\<lambda>v. and_then (for_loop xs body v) (for_loop ys body))"
    by (rule ext) (rule Cons.IH)
  then show ?case by (simp add: and_then_assoc)
qed

lemma nth_update_cases:
  "j < length a \<Longrightarrow> a[y := r] ! j = (if j = y then r else a ! j)"
  by (cases "j = y") simp_all

lemma for_loop_invariant:
  assumes "\<And>i t. i \<in> set xs \<Longrightarrow> Q t \<Longrightarrow> \<exists>t'. body i t = returns t' \<and> Q t'"
    and "Q t"
  shows "\<exists>t'. for_loop xs body t = returns t' \<and> Q t'"
  using assms
proof (induction xs arbitrary: t)
  case Nil
  then show ?case by simp
next
  case (Cons i xs)
  from Cons.prems(1) [of i t] Cons.prems(2)
  obtain u where step: "body i t = returns u" and inv: "Q u" by auto
  have "\<exists>t'. for_loop xs body u = returns t' \<and> Q t'"
    using Cons.prems(1) inv by (intro Cons.IH) simp_all
  with step show ?case by simp
qed

lemma binary_iff:
  "binary a \<longleftrightarrow> (\<forall>j<length a. \<forall>i<length (a ! j). a ! j ! i = 0 \<or> a ! j ! i = 1)"
  by (simp add: binary_def list_all_length)

lemma shaped_is_ndarray: "shaped h w a \<Longrightarrow> is_ndarray a"
  by (cases a) (auto simp: shaped_def is_ndarray_def list_all_length)

lemma shaped_first_row: "shaped h w a \<Longrightarrow> 0 < h \<Longrightarrow> first_row a = returns (hd a) \<and> length (hd a) = w"
  by (cases a) (auto simp: shaped_def first_row_def)

lemma shaped_update:
  "shaped h w a \<Longrightarrow> length r = w \<Longrightarrow> shaped h w (a[y := r])"
  by (simp add: shaped_def nth_update_cases)

lemma binary_update:
  assumes "binary a" and "v = 0 \<or> v = 1"
  shows "binary (a[y := (a ! y)[x := v]])"
  using assms by (auto simp: binary_iff nth_update_cases)

lemma np_zeros_shaped:
  assumes "0 \<le> rows" and "0 \<le> cols"
  shows "\<exists>a. np_zeros rows cols = returns a \<and> shaped (nat rows) (nat cols) a \<and> binary a"
  using assms by (simp add: np_zeros_def shaped_def binary_iff)

lemma make_random_board_shaped:
  assumes "0 \<le> fst sz" and "0 \<le> snd sz"
  shows "\<exists>a. make_random_board sz rng = returns a
           \<and> shaped (nat (fst sz)) (nat (snd sz)) a \<and> binary a"
proof -
  let ?h = "nat (fst sz)" and ?w = "nat (snd sz)"
  let ?Q = "\<lambda>st :: array \<times> nat. shaped ?h ?w (fst st) \<and> binary (fst st)"
  let ?inner = "\<lambda>row col (st :: array \<times> nat).
            let rand = rng (snd st) in
            if rand \<le> 0.2 then
              and_then (np_set (fst st) row col 1) (\<lambda>b. returns (b, Suc (snd st)))
            else returns (fst st, Suc (snd st))"
  let ?outer = "\<lambda>row (st :: array \<times> nat).
          and_then (first_row (fst st)) (\<lambda>r.
          for_loop (range_py (length r)) (?inner row) st)"
  from np_zeros_shaped [OF assms] obtain a0
    where zeros: "np_zeros (fst sz) (snd sz) = returns a0" and a0: "?Q (a0, 0)" by auto
  have inner: "\<exists>st'. ?inner (int y) (int x) st = returns st' \<and> ?Q st'"
    if "y < ?h" and "x \<in> set [0..<?w]" and "?Q st" for x y st
  proof -
    from that have "y < length (fst st)" "x < length (fst st ! y)"
      by (simp_all add: shaped_def)
    then have "np_set (fst st) (int y) (int x) 1
               = returns ((fst st)[y := (fst st ! y)[x := 1]])"
      by (rule np_set_in_range)
    moreover have "length ((fst st ! y)[x := 1]) = ?w"
      using that by (simp add: shaped_def)
    then have "shaped ?h ?w ((fst st)[y := (fst st ! y)[x := 1]])"
      using that(3) by (intro shaped_update) simp_all
    moreover have "binary ((fst st)[y := (fst st ! y)[x := 1]])"
      using that(3) by (intro binary_update) simp_all
    ultimately show ?thesis using that(3) by (simp add: Let_def)
  qed
  have outer: "\<exists>st'. ?outer (int y) st = returns st' \<and> ?Q st'"
    if "y \<in> set [0..<?h]" and "?Q st" for y st
  proof -
    from that have y: "y < ?h" by simp
    with that(2) have row: "first_row (fst st) = returns (hd (fst st))"
      and w: "length (hd (fst st)) = ?w"
      using shaped_first_row [of ?h ?w "fst st"] by simp_all
    have "\<exists>st'. for_loop [0..<?w] (\<lambda>x. ?inner (int y) (int x)) st = returns st' \<and> ?Q st'"
      by (rule for_loop_invariant [where Q = ?Q]) (use inner [OF y] that(2) in blast)+
    then show ?thesis by (simp add: row w for_loop_range_py)
  qed
  have "\<exists>st'. for_loop [0..<?h] (\<lambda>y. ?outer (int y)) (a0, 0) = returns st' \<and> ?Q st'"
    by (rule for_loop_invariant [where Q = ?Q]) (use outer a0 in blast)+
  then obtain st' where
    "for_loop (range_py ?h) ?outer (a0, 0) = returns st'" and "?Q st'"
    by (auto simp: for_loop_range_py)
  moreover from a0 have "length a0 = ?h" by (simp add: shaped_def)
  ultimately show ?thesis
    by (simp add: make_random_board_def zeros Let_def)
qed

lemma make_random_board_negative:
  assumes "fst sz < 0 \<or> snd sz < 0"
  shows "make_random_board sz rng = raises ValueError"
  using assms by (simp add: make_random_board_def np_zeros_def)

lemma init_supplied:
  "init s sz (Some b) rng
     = returns (s @ [s ! b], \<lparr>history = [], board = b, initial_board = length s\<rparr>)"
  by (simp add: init_def copy_def)

lemma init_random:
  assumes "0 \<le> fst sz" and "0 \<le> snd sz"
  shows "\<exists>a. make_random_board sz rng = returns a
           \<and> shaped (nat (fst sz)) (nat (snd sz)) a \<and> binary a
           \<and> init s sz None rng
               = returns (s @ [a, a],
                          \<lparr>history = [], board = length s, initial_board = Suc (length s)\<rparr>)"
proof -
  from make_random_board_shaped [OF assms] obtain a
    where "make_random_board sz rng = returns a"
      and "shaped (nat (fst sz)) (nat (snd sz)) a" and "binary a" by blast
  then show ?thesis
    by (simp add: init_def copy_def new_array_def)
qed

lemma init_negative:
  assumes "fst sz < 0 \<or> snd sz < 0"
  shows "init s sz None rng = raises ValueError"
  using assms by (simp add: init_def make_random_board_negative)

subsection \<open>Repeated ticks\<close>

lemma ticks_0: "ticks 0 s self = returns (s, self)"
  by (simp add: ticks_def range_py_def)

lemma ticks_Suc:
  "ticks (Suc k) s self = and_then (ticks k s self) (\<lambda>st. tick (fst st) (snd st))"
proof -
  have "range_py (Suc k) = range_py k @ [int k]" by (simp add: range_py_def)
  then show ?thesis by (simp add: ticks_def for_loop_append and_then_def returns_def
        split: option.splits sum.splits)
qed

lemma is_ndarray_next_board: "is_ndarray (next_board a)"
  by (cases "length a") (simp_all add: next_board_def is_ndarray_def list_all_iff hd_map upt_conv_Cons del: upt_Suc)

lemma is_ndarray_generation:
  "is_ndarray a \<Longrightarrow> is_ndarray ((next_board ^^ k) a)"
  by (cases k) (simp_all add: is_ndarray_next_board)

lemma length_tick_arrays [simp]: "length (tick_arrays k a) = 2 * k"
  by (induction k) (simp_all add: tick_arrays_def)

lemma tick_arrays_Suc:
  "tick_arrays (Suc k) a = tick_arrays k a @ [(next_board ^^ k) a, (next_board ^^ Suc k) a]"
  by (simp add: tick_arrays_def)

lemma tick_arrays_nth:
  "i < k \<Longrightarrow> tick_arrays k a ! (2 * i) = (next_board ^^ i) a
           \<and> tick_arrays k a ! Suc (2 * i) = (next_board ^^ Suc i) a"
proof (induction k)
  case 0
  then show ?case by simp
next
  case (Suc k)
  show ?case
  proof (cases "i < k")
    case True
    with Suc.IH show ?thesis
      by (simp add: tick_arrays_Suc nth_append)
  next
    case False
    with Suc.prems have "i = k" by simp
    then show ?thesis
      by (simp add: tick_arrays_Suc nth_append)
  qed
qed

lemma ticks_closed_form:
  assumes "live s self"
  shows "ticks k s self =
           returns (s @ tick_arrays k (s ! board self),
                    self\<lparr>history := history self @ map (\<lambda>i. length s + 2 * i) [0..<k],
                         board := board_after k s self\<rparr>)
         \<and> (s @ tick_arrays k (s ! board self)) ! board_after k s self
             = (next_board ^^ k) (s ! board self)
         \<and> board_after k s self < length s + 2 * k"
proof (induction k)
  case 0
  from assms show ?case
    by (simp add: ticks_0 tick_arrays_def board_after_def live_def nth_append)
next
  case (Suc k)
  let ?a = "s ! board self"
  let ?sk = "s @ tick_arrays k ?a"
  let ?selfk = "self\<lparr>history := history self @ map (\<lambda>i. length s + 2 * i) [0..<k],
                      board := board_after k s self\<rparr>"
  from Suc have run: "ticks k s self = returns (?sk, ?selfk)"
    and grid: "?sk ! board_after k s self = (next_board ^^ k) ?a"
    and addr: "board_after k s self < length s + 2 * k" by simp_all
  from assms have "is_ndarray ((next_board ^^ k) ?a)"
    by (intro is_ndarray_generation) (simp add: live_def)
  with grid addr have "is_ndarray (?sk ! board ?selfk)" and "board ?selfk < length ?sk"
    by simp_all
  from tick_closed_form [OF this] grid
  have "tick ?sk ?selfk =
          returns (s @ tick_arrays (Suc k) ?a,
                   self\<lparr>history := history self @ map (\<lambda>i. length s + 2 * i) [0..<Suc k],
                        board := board_after (Suc k) s self\<rparr>)"
    by (simp add: tick_arrays_Suc board_after_def)
  moreover have "(s @ tick_arrays (Suc k) ?a) ! board_after (Suc k) s self
                 = (next_board ^^ Suc k) ?a"
    using tick_arrays_nth [of k "Suc k" ?a]
    by (simp add: board_after_def nth_append)
  ultimately show ?case
    by (simp add: ticks_Suc run board_after_def)
qed

subsection \<open>History and the initial board\<close>

lemma init_fresh:
  assumes "init s sz board_arg rng = returns (s0, self0)" and "supplied_ok s board_arg"
  shows "live s0 self0" and "history self0 = []" and "initial_board self0 < length s0"
    and "s0 ! initial_board self0 = s0 ! board self0"
proof -
  have "live s0 self0 \<and> history self0 = [] \<and> initial_board self0 < length s0
        \<and> s0 ! initial_board self0 = s0 ! board self0"
  proof (cases board_arg)
    case (Some b)
    with assms show ?thesis
      by (auto simp: init_supplied supplied_ok_def live_def nth_append)
  next
    case None
    show ?thesis
    proof (cases "fst sz < 0 \<or> snd sz < 0")
      case True
      with assms(1) None show ?thesis by (simp add: init_negative)
    next
      case False
      then have "0 \<le> fst sz" "0 \<le> snd sz" by simp_all
      from init_random [OF this, of rng s] assms(1) None show ?thesis
        by (auto simp: live_def nth_append dest: shaped_is_ndarray)
    qed
  qed
  then show "live s0 self0" and "history self0 = []" and "initial_board self0 < length s0"
    and "s0 ! initial_board self0 = s0 ! board self0" by simp_all
qed

text \<open>
  C5. After a board is constructed, \<open>k\<close> calls of \<open>tick\<close> return, for every \<open>k\<close>, and
  then \<open>history\<close> has exactly \<open>k\<close> entries; for \<open>k \<ge> 1\<close> entry 0 is the grid as it
  was when the constructor returned; and for every \<open>i < k\<close> entry \<open>i\<close> is the live grid
  as it was after \<open>i\<close> calls, that is, just before the update of call number \<open>i\<close>
  (counting from 0), in the order of the calls.
\<close>

theorem history_records_generations:
  assumes "init s sz board_arg rng = returns (s0, self0)" and "supplied_ok s board_arg"
  shows "\<exists>sk selfk. ticks k s0 self0 = returns (sk, selfk)
           \<and> length (get_animation selfk) = k
           \<and> (0 < k \<longrightarrow> sk ! (get_animation selfk ! 0) = s0 ! get_board self0)
           \<and> (\<forall>i<k. \<exists>si selfi. ticks i s0 self0 = returns (si, selfi)
                      \<and> sk ! (get_animation selfk ! i) = si ! get_board selfi)"
proof -
  note fresh = init_fresh [OF assms]
  let ?a = "s0 ! board self0"
  let ?sk = "s0 @ tick_arrays k ?a"
  let ?selfk = "self0\<lparr>history := history self0 @ map (\<lambda>i. length s0 + 2 * i) [0..<k],
                       board := board_after k s0 self0\<rparr>"
  from ticks_closed_form [OF fresh(1), of k]
  have run: "ticks k s0 self0 = returns (?sk, ?selfk)" by simp
  have snap: "?sk ! (get_animation ?selfk ! i) = (next_board ^^ i) ?a" if "i < k" for i
    using that tick_arrays_nth [OF that, of ?a] fresh(2)
    by (simp add: get_animation_def nth_append)
  have gen: "\<exists>si selfi. ticks i s0 self0 = returns (si, selfi)
               \<and> si ! get_board selfi = (next_board ^^ i) ?a" for i
    using ticks_closed_form [OF fresh(1), of i] by (simp add: get_board_def)
  have "length (get_animation ?selfk) = k"
    using fresh(2) by (simp add: get_animation_def)
  moreover have "0 < k \<longrightarrow> ?sk ! (get_animation ?selfk ! 0) = s0 ! get_board self0"
    using snap [of 0] by (simp add: get_board_def)
  moreover have "\<forall>i<k. \<exists>si selfi. ticks i s0 self0 = returns (si, selfi)
                      \<and> ?sk ! (get_animation ?selfk ! i) = si ! get_board selfi"
    using snap gen by metis
  ultimately show ?thesis using run by blast
qed

theorem history_records_generations_witness:
  "init [[[0, 1, 0], [0, 1, 0], [0, 1, 0], [0, 0, 0]]] (25, 25) (Some 0) (rng_const 0)
     = returns ([[[0, 1, 0], [0, 1, 0], [0, 1, 0], [0, 0, 0]],
                 [[0, 1, 0], [0, 1, 0], [0, 1, 0], [0, 0, 0]]],
                \<lparr>history = [], board = 0, initial_board = 1\<rparr>)
   \<and> supplied_ok [[[0, 1, 0], [0, 1, 0], [0, 1, 0], [0, 0, 0]]] (Some 0)
   \<and> (\<exists>sk selfk.
         ticks 2 [[[0, 1, 0], [0, 1, 0], [0, 1, 0], [0, 0, 0]],
                  [[0, 1, 0], [0, 1, 0], [0, 1, 0], [0, 0, 0]]]
                 \<lparr>history = [], board = 0, initial_board = 1\<rparr> = returns (sk, selfk)
         \<and> length (get_animation selfk) = 2
         \<and> sk ! (get_animation selfk ! 0) = [[0, 1, 0], [0, 1, 0], [0, 1, 0], [0, 0, 0]])"
proof -
  let ?g = "[[0, 1, 0], [0, 1, 0], [0, 1, 0], [0, 0, 0 :: int]]"
  let ?self = "\<lparr>history = [], board = 0, initial_board = 1\<rparr>"
  have made: "init [?g] (25, 25) (Some 0) (rng_const 0) = returns ([?g, ?g], ?self)"
    by (simp add: init_def copy_def)
  have ok: "supplied_ok [?g] (Some 0)"
    by (simp add: supplied_ok_def is_ndarray_def)
  from history_records_generations [OF made ok, of 2] obtain sk selfk
    where "ticks 2 [?g, ?g] ?self = returns (sk, selfk)"
      and "length (get_animation selfk) = 2"
      and "sk ! (get_animation selfk ! 0) = [?g, ?g] ! get_board ?self"
    by auto
  then have "\<exists>sk selfk. ticks 2 [?g, ?g] ?self = returns (sk, selfk)
         \<and> length (get_animation selfk) = 2
         \<and> sk ! (get_animation selfk ! 0) = ?g"
    by (simp add: get_board_def)
  with made ok show ?thesis by simp
qed

text \<open>
  C8. After a board is constructed and then \<open>tick\<close> is called any number \<open>k\<close> of times,
  \<open>get_initial_board()\<close> returns the array it returned before the calls, and the cells
  of that array are those of the live grid as it was when the constructor returned.
\<close>

theorem initial_board_unchanged:
  assumes "init s sz board_arg rng = returns (s0, self0)" and "supplied_ok s board_arg"
  shows "\<exists>sk selfk. ticks k s0 self0 = returns (sk, selfk)
           \<and> get_initial_board selfk = get_initial_board self0
           \<and> sk ! get_initial_board selfk = s0 ! get_board self0"
proof -
  note fresh = init_fresh [OF assms]
  from ticks_closed_form [OF fresh(1), of k] fresh(3,4) show ?thesis
    by (simp add: get_initial_board_def get_board_def nth_append)
qed

theorem initial_board_unchanged_witness:
  "init [[[0, 1, 0], [0, 1, 0], [0, 1, 0], [0, 0, 0]]] (25, 25) (Some 0) (rng_const 0)
     = returns ([[[0, 1, 0], [0, 1, 0], [0, 1, 0], [0, 0, 0]],
                 [[0, 1, 0], [0, 1, 0], [0, 1, 0], [0, 0, 0]]],
                \<lparr>history = [], board = 0, initial_board = 1\<rparr>)
   \<and> supplied_ok [[[0, 1, 0], [0, 1, 0], [0, 1, 0], [0, 0, 0]]] (Some 0)
   \<and> (\<exists>sk selfk.
         ticks 3 [[[0, 1, 0], [0, 1, 0], [0, 1, 0], [0, 0, 0]],
                  [[0, 1, 0], [0, 1, 0], [0, 1, 0], [0, 0, 0]]]
                 \<lparr>history = [], board = 0, initial_board = 1\<rparr> = returns (sk, selfk)
         \<and> get_initial_board selfk = 1
         \<and> sk ! get_initial_board selfk = [[0, 1, 0], [0, 1, 0], [0, 1, 0], [0, 0, 0]])"
proof -
  let ?g = "[[0, 1, 0], [0, 1, 0], [0, 1, 0], [0, 0, 0 :: int]]"
  let ?self = "\<lparr>history = [], board = 0, initial_board = 1\<rparr>"
  have made: "init [?g] (25, 25) (Some 0) (rng_const 0) = returns ([?g, ?g], ?self)"
    by (simp add: init_def copy_def)
  have ok: "supplied_ok [?g] (Some 0)"
    by (simp add: supplied_ok_def is_ndarray_def)
  from initial_board_unchanged [OF made ok, of 3] obtain sk selfk
    where "ticks 3 [?g, ?g] ?self = returns (sk, selfk)"
      and "get_initial_board selfk = get_initial_board ?self"
      and "sk ! get_initial_board selfk = [?g, ?g] ! get_board ?self"
    by auto
  then have "\<exists>sk selfk. ticks 3 [?g, ?g] ?self = returns (sk, selfk)
         \<and> get_initial_board selfk = 1
         \<and> sk ! get_initial_board selfk = ?g"
    by (simp add: get_board_def get_initial_board_def)
  with made ok show ?thesis by simp
qed

subsection \<open>Sizes, validation and cell values\<close>

lemma shaped_get_size:
  "shaped h w a \<Longrightarrow> 0 < h \<Longrightarrow> get_size a = returns (int w, int h)"
  by (cases a) (auto simp: shaped_def)

text \<open>
  C6. A board constructed with \<open>size = [2, 3]\<close> and no grid has 2 rows and 3 columns:
  \<open>get_size()\<close> on it returns \<open>[3, 2]\<close>, the columns first, and not \<open>[2, 3]\<close>.
\<close>

theorem random_board_size_transposed:
  "\<exists>s0 self0. init s (2, 3) None rng = returns (s0, self0)
     \<and> get_size (s0 ! get_board self0) = returns (3, 2)"
proof -
  from init_random [of "(2, 3)" rng s] obtain a
    where "shaped 2 3 a"
      and "init s (2, 3) None rng
           = returns (s @ [a, a], \<lparr>history = [], board = length s, initial_board = Suc (length s)\<rparr>)"
    by auto
  moreover from this have "get_size a = returns (3, 2)"
    using shaped_get_size [of 2 3 a] by simp
  ultimately show ?thesis by (simp add: get_board_def nth_append)
qed

text \<open>
  In general the two numbers of \<open>size\<close> come back exchanged, and whatever \<open>get_size()\<close>
  returns on a board it returns after every number of calls of \<open>tick\<close>.
\<close>

lemma random_board_get_size:
  assumes "1 \<le> fst sz" and "0 \<le> snd sz"
  shows "\<exists>s0 self0. init s sz None rng = returns (s0, self0)
           \<and> get_size (s0 ! get_board self0) = returns (snd sz, fst sz)"
proof -
  from assms have "0 \<le> fst sz" by simp
  from init_random [OF this assms(2), of rng s] obtain a
    where "shaped (nat (fst sz)) (nat (snd sz)) a"
      and "init s sz None rng
           = returns (s @ [a, a], \<lparr>history = [], board = length s, initial_board = Suc (length s)\<rparr>)"
    by auto
  moreover from this assms have "get_size a = returns (snd sz, fst sz)"
    using shaped_get_size [of "nat (fst sz)" "nat (snd sz)" a] by simp
  ultimately show ?thesis by (simp add: get_board_def nth_append)
qed

lemma get_size_next_board: "get_size (next_board a) = get_size a"
proof (cases a)
  case Nil
  then show ?thesis by (simp add: next_board_def)
next
  case (Cons r rs)
  then have "a \<noteq> []" by simp
  then have "next_board a \<noteq> []" and "length (next_board a) = length a"
    and "length (hd (next_board a)) = length (hd a)"
    by (simp_all add: next_board_def hd_map)
  with \<open>a \<noteq> []\<close> show ?thesis by (simp add: get_size_rows)
qed

lemma get_size_generation: "get_size ((next_board ^^ k) a) = get_size a"
  by (induction k) (simp_all add: get_size_next_board)

lemma get_size_after_ticks:
  assumes "live s self"
  shows "\<exists>sk selfk. ticks k s self = returns (sk, selfk)
           \<and> get_size (sk ! get_board selfk) = get_size (s ! get_board self)"
  using ticks_closed_form [OF assms, of k]
  by (simp add: get_board_def get_size_generation)




lemma binary_two_pass: "binary (spec_two_pass a)"
  by (simp add: spec_two_pass_def binary_iff spec_next_state_def Let_def)

text \<open>
  C10. \<open>make_random_board\<close> returns a board for every size without a negative
  dimension, and every board it returns has only cells 0 and 1; on a board of cells 0 and
  1, \<open>tick\<close> returns and every cell of the new live grid is 0 or 1; and \<open>update_cell\<close>
  for a cell in range of such a board returns 0 or 1.
\<close>

theorem cells_stay_binary:
  "(0 \<le> fst sz \<and> 0 \<le> snd sz \<longrightarrow> (\<exists>a. make_random_board sz rng = returns a \<and> binary a))
   \<and> (\<forall>a. make_random_board sz rng = returns a \<longrightarrow> binary a)
   \<and> (live s self \<and> binary (s ! board self)
      \<longrightarrow> (\<exists>s' self'. tick s self = returns (s', self') \<and> binary (s' ! board self')))
   \<and> (is_ndarray g \<and> binary g \<and> 0 \<le> x \<and> x < int (length (hd g))
        \<and> 0 \<le> y \<and> y < int (length g)
      \<longrightarrow> update_cell g x y = returns 0 \<or> update_cell g x y = returns 1)"
proof (intro conjI impI allI)
  assume "0 \<le> fst sz \<and> 0 \<le> snd sz"
  then show "\<exists>a. make_random_board sz rng = returns a \<and> binary a"
    using make_random_board_shaped [of sz rng] by blast
next
  fix a assume made: "make_random_board sz rng = returns a"
  show "binary a"
  proof (cases "fst sz < 0 \<or> snd sz < 0")
    case True
    with made show ?thesis by (simp add: make_random_board_negative)
  next
    case False
    with made make_random_board_shaped [of sz rng] show ?thesis by auto
  qed
next
  assume "live s self \<and> binary (s ! board self)"
  then have "board self < length s" "is_ndarray (s ! board self)" "binary (s ! board self)"
    by (simp_all add: live_def)
  then show "\<exists>s' self'. tick s self = returns (s', self') \<and> binary (s' ! board self')"
    by (simp add: tick_closed_form next_board_two_pass binary_two_pass temp_nth)
next
  assume "is_ndarray g \<and> binary g \<and> 0 \<le> x \<and> x < int (length (hd g))
        \<and> 0 \<le> y \<and> y < int (length g)"
  then have nd: "is_ndarray g" and bin: "binary g"
    and range: "0 \<le> x" "x < int (length (hd g))" "0 \<le> y" "y < int (length g)"
    by blast+
  from range have row: "nat y < length g" by simp
  with nd have "length (g ! nat y) = length (hd g)" by (rule is_ndarray_row)
  with range have "nat x < length (g ! nat y)" by simp
  with row have "spec_cell g (x, y) = 0 \<or> spec_cell g (x, y) = 1"
    using binary_cell [OF bin, of "nat y" "nat x"] by (simp add: spec_cell_def)
  then have "next_cell g x y = spec_next_state g x y" by (rule next_cell_binary)
  with update_cell_next_cell [OF nd range]
  have "update_cell g x y = returns (spec_next_state g x y)" by simp
  then show "update_cell g x y = returns 0 \<or> update_cell g x y = returns 1"
    by (simp add: spec_next_state_def Let_def)
qed

theorem cells_stay_binary_witness:
  "(\<exists>a. make_random_board (2, 3) (rng_const 0) = returns a \<and> binary a)
   \<and> live [[[0, 1, 0], [0, 1, 0], [0, 1, 0], [0, 0, 0]]] \<lparr>history = [], board = 0, initial_board = 0\<rparr>
   \<and> binary [[0, 1, 0], [0, 1, 0], [0, 1, 0], [0, 0, 0]]
   \<and> (\<exists>s' self'. tick [[[0, 1, 0], [0, 1, 0], [0, 1, 0], [0, 0, 0]]]
                       \<lparr>history = [], board = 0, initial_board = 0\<rparr> = returns (s', self')
         \<and> binary (s' ! board self'))
   \<and> is_ndarray [[0, 1, 0], [0, 1, 0], [0, 1, 0], [0, 0, 0]]
   \<and> (update_cell [[0, 1, 0], [0, 1, 0], [0, 1, 0], [0, 0, 0]] 1 1 = returns 0
      \<or> update_cell [[0, 1, 0], [0, 1, 0], [0, 1, 0], [0, 0, 0]] 1 1 = returns 1)"
proof -
  let ?g = "[[0, 1, 0], [0, 1, 0], [0, 1, 0], [0, 0, 0 :: int]]"
  let ?self = "\<lparr>history = [], board = 0, initial_board = 0\<rparr>"
  have nd: "is_ndarray ?g" by (simp add: is_ndarray_def)
  have bin: "binary ?g" by (simp add: binary_def)
  have lv: "live [?g] ?self" by (simp add: live_def is_ndarray_def)
  note c = cells_stay_binary [of "(2, 3)" "rng_const 0" "[?g]" ?self ?g 1 1]
  from c have "\<exists>a. make_random_board (2, 3) (rng_const 0) = returns a \<and> binary a" by simp
  moreover from c lv bin
  have "\<exists>s' self'. tick [?g] ?self = returns (s', self') \<and> binary (s' ! board self')" by simp
  moreover from c nd bin
  have "update_cell ?g 1 1 = returns 0 \<or> update_cell ?g 1 1 = returns 1" by simp
  ultimately show ?thesis using nd bin lv by simp
qed

subsection \<open>Saving and reading a board\<close>

lemma fold_append_concat: "fold (\<lambda>x t. t @ F x) xs t = t @ concat (map F xs)"
  by (induction xs arbitrary: t) simp_all

lemma map_by_index: "map (\<lambda>i. F (xs ! i)) [0..<length xs] = map F xs"
  by (rule nth_equalityI) simp_all

lemma for_loop_total:
  assumes "\<And>i t. i \<in> set xs \<Longrightarrow> body i t = returns (G i t)"
  shows "for_loop xs body t = returns (fold G xs t)"
  using for_loop_fold [where emb = "\<lambda>t. t" and Q = "\<lambda>t. True" and body = body and G = G
                         and xs = xs and t = t] assms
  by simp

lemma save_row:
  assumes "is_ndarray a" and "y < length a"
  shows "for_loop (range_py (length (hd a)))
           (\<lambda>x board_txt. and_then (np_get a (int y) x) (\<lambda>c.
                           returns (board_txt @ str_int c @ '' ''))) out
         = returns (out @ row_text (a ! y))"
proof -
  let ?w = "length (hd a)"
  from assms have w: "length (a ! y) = ?w" by (simp add: is_ndarray_row)
  have "for_loop [0..<?w]
          (\<lambda>x board_txt. and_then (np_get a (int y) (int x)) (\<lambda>c.
                          returns (board_txt @ str_int c @ '' ''))) out
        = returns (fold (\<lambda>x t. t @ str_int (a ! y ! x) @ '' '') [0..<?w] out)"
    using assms by (intro for_loop_total) (simp add: np_get_in_range)
  moreover have "map (\<lambda>x. str_int (a ! y ! x) @ '' '') [0..<?w]
                 = map (\<lambda>c. str_int c @ '' '') (a ! y)"
    using map_by_index [of "\<lambda>c. str_int c @ '' ''" "a ! y"] w by simp
  ultimately show ?thesis
    by (simp add: for_loop_range_py fold_append_concat row_text_def)
qed

lemma save_board_text:
  assumes "is_ndarray a"
  shows "save_board a filename fs = returns (fs(filename \<mapsto> board_text a))"
proof -
  let ?body = "\<lambda>y board_txt.
           and_then (first_row a) (\<lambda>row.
           and_then
             (for_loop (range_py (length row)) (\<lambda>x board_txt.
                and_then (np_get a y x) (\<lambda>c.
                returns (board_txt @ str_int c @ '' ''))) board_txt)
             (\<lambda>board_txt. returns (board_txt @ [CHR 0x0A])))"
  have step: "?body (int y) out = returns (out @ row_text (a ! y) @ [CHR 0x0A])"
    if "y \<in> set [0..<length a]" for y out
  proof -
    from that have y: "y < length a" by simp
    then have "first_row a = returns (hd a)" by (cases a) (simp_all add: first_row_def)
    then show ?thesis by (simp add: save_row [OF assms y])
  qed
  have "for_loop [0..<length a] (\<lambda>y. ?body (int y)) []
        = returns (fold (\<lambda>y t. t @ row_text (a ! y) @ [CHR 0x0A]) [0..<length a] [])"
    by (intro for_loop_total step)
  moreover have "map (\<lambda>y. row_text (a ! y) @ [CHR 0x0A]) [0..<length a]
                 = map (\<lambda>row. row_text row @ [CHR 0x0A]) a"
    by (rule map_by_index)
  ultimately show ?thesis
    by (simp add: save_board_def for_loop_range_py fold_append_concat board_text_def)
qed

lemma str_int_binary: "str_int 0 = ''0''" "str_int 1 = ''1''"
  by (simp_all add: str_int_def digits_def str_nat.simps)

lemma py_int_binary: "py_int ''0'' = returns 0" "py_int ''1'' = returns 1"
  by (simp_all add: py_int_def digit_value_def digits_def)

lemma universal_newlines_id:
  "CHR 0x0D \<notin> set content \<Longrightarrow> universal_newlines content = content"
  by (induction content rule: universal_newlines.induct) auto

lemma lines_from_line:
  "CHR 0x0A \<notin> set l \<Longrightarrow>
   lines_from line (l @ CHR 0x0A # rest) = (line @ l @ [CHR 0x0A]) # lines_from [] rest"
  by (induction l arbitrary: line) auto

lemma split_from_token:
  assumes "\<forall>c\<in>set tok. \<not> is_space c" and "is_space sp" and "cur @ tok \<noteq> []"
  shows "split_from cur (tok @ sp # rest) = (cur @ tok) # split_from [] rest"
  using assms by (induction tok arbitrary: cur) auto

lemma row_text_chars:
  assumes "bits row"
  shows "set (row_text row) \<subseteq> {CHR ''0'', CHR ''1'', CHR '' ''}"
  using assms
  by (induction row) (auto simp: row_text_def bits_def str_int_binary)

lemma split_row_text:
  assumes "bits row"
  shows "split (row_text row @ [CHR 0x0A]) = map str_int row"
  using assms
proof (induction row)
  case Nil
  show ?case by (simp add: split_def row_text_def is_space_def)
next
  case (Cons c row)
  then have c: "c = 0 \<or> c = 1" and row: "bits row" by (simp_all add: bits_def)
  have "split_from [] (str_int c @ CHR '' '' # (row_text row @ [CHR 0x0A]))
        = ([] @ str_int c) # split_from [] (row_text row @ [CHR 0x0A])"
    using c by (intro split_from_token) (auto simp: str_int_binary is_space_def)
  with Cons.IH [OF row] show ?case
    by (simp add: split_def row_text_def)
qed

lemma comprehension_row:
  assumes "bits row"
  shows "comprehension py_int (map str_int row) = returns row"
  using assms
  by (induction row) (auto simp: bits_def str_int_binary py_int_binary)

lemma readlines_board_text:
  assumes "\<forall>row\<in>set a. bits row"
  shows "readlines (board_text a) = map (\<lambda>row. row_text row @ [CHR 0x0A]) a"
proof -
  have chars: "set (row_text row) \<subseteq> {CHR ''0'', CHR ''1'', CHR '' ''}" if "row \<in> set a" for row
    using that assms by (intro row_text_chars) simp
  then have "CHR 0x0D \<notin> set (board_text a)"
    by (auto simp: board_text_def)
  moreover have "lines_from [] (board_text a) = map (\<lambda>row. row_text row @ [CHR 0x0A]) a"
    using chars
  proof (induction a)
    case Nil
    show ?case by (simp add: board_text_def)
  next
    case (Cons row a)
    from Cons.prems [of row] have "CHR 0x0A \<notin> set (row_text row)" by auto
    from lines_from_line [OF this, of "[]" "board_text a"] Cons show ?case
      by (simp add: board_text_def)
  qed
  ultimately show ?thesis by (simp add: readlines_def universal_newlines_id)
qed

lemma read_lines_loop:
  assumes "\<forall>row\<in>set a. bits row"
  shows "for_loop (map (\<lambda>row. row_text row @ [CHR 0x0A]) a)
           (\<lambda>line board.
               and_then (comprehension py_int (split line)) (\<lambda>split1.
               returns (board @ [split1]))) acc
         = returns (acc @ a)"
  using assms
  by (induction a arbitrary: acc) (simp_all add: split_row_text comprehension_row)

lemma binary_bits: "binary a \<longleftrightarrow> (\<forall>row\<in>set a. bits row)"
  by (simp add: binary_def bits_def list_all_iff)

lemma read_board_text:
  assumes "is_ndarray a" and "binary a"
  shows "read_board filename (fs(filename \<mapsto> board_text a)) = returns a"
  using assms
  by (simp add: read_board_def binary_bits readlines_board_text read_lines_loop np_array_def)

text \<open>
  C9. For a grid of cells 0 and 1 with at least one row and one column, \<open>save_board\<close>
  writes a file from which \<open>read_board\<close> returns the same grid: the same rows, so the
  same number of rows and of columns and the same cell at every coordinate.
\<close>

theorem save_then_read:
  assumes "is_ndarray a" and "binary a" and "get_size a = returns (width, height)"
    and "1 \<le> width" and "1 \<le> height"
  shows "\<exists>fs'. save_board a filename fs = returns fs' \<and> read_board filename fs' = returns a"
  using assms(1,2) by (simp add: save_board_text read_board_text)

theorem save_then_read_witness:
  "is_ndarray [[0, 1, 0], [1, 1, 0]] \<and> binary [[0, 1, 0], [1, 1, 0]]
   \<and> get_size [[0, 1, 0], [1, 1, 0]] = returns (3, 2)
   \<and> (\<exists>fs'. save_board [[0, 1, 0], [1, 1, 0]] ''initial-board.txt'' Map.empty = returns fs'
         \<and> read_board ''initial-board.txt'' fs' = returns [[0, 1, 0], [1, 1, 0]])"
proof -
  have nd: "is_ndarray [[0, 1, 0], [1, 1, 0]]" by (simp add: is_ndarray_def)
  have bin: "binary [[0, 1, 0], [1, 1, 0]]" by (simp add: binary_def)
  have size: "get_size [[0, 1, 0], [1, 1, 0]] = returns (3, 2)" by simp
  from save_then_read [OF nd bin size, of "''initial-board.txt''" Map.empty] nd bin size
  show ?thesis by simp
qed

end
